theory Spec2Isabelle
  imports Main
begin

section \<open>Line coverage reports of s2e-env (lcov.py)\<close>

text \<open>
  A shallow embedding of \<^verbatim>\<open>s2e_env/commands/code_coverage/lcov.py\<close>.
  Python dictionaries keep their insertion order and are mutable objects that can be
  shared; both matter here. A dictionary is therefore an association list with distinct
  keys, in insertion order, and the address dictionaries, which \<^verbatim>\<open>_merge_coverage\<close>
  stores and mutates, live in a store of objects addressed by references.
\<close>

subsection \<open>Python values\<close>

datatype error =
    KeyError
  | ValueError
  | IOError
  | ResolverError string
  | CommandError string

text \<open>\<^verbatim>\<open>d[k] = v\<close>: an existing key keeps its position, a new key goes last.\<close>

fun dict_set :: "('k \<times> 'v) list \<Rightarrow> 'k \<Rightarrow> 'v \<Rightarrow> ('k \<times> 'v) list" where
  "dict_set [] k v = [(k, v)]"
| "dict_set ((k', v') # d) k v =
     (if k' = k then (k, v) # d else (k', v') # dict_set d k v)"

text \<open>An address dictionary: instruction address to execution count.\<close>

type_synonym addr_count = "(int \<times> int) list"

text \<open>The objects of the store: every address dictionary has a reference.\<close>

type_synonym ref = nat

record store =
  objs :: "ref \<Rightarrow> addr_count"
  next_ref :: ref

definition empty_store :: store where
  "empty_store = \<lparr>objs = (\<lambda>_. []), next_ref = 0\<rparr>"

definition alloc :: "addr_count \<Rightarrow> store \<Rightarrow> ref \<times> store" where
  "alloc d s = (next_ref s, s\<lparr>objs := (objs s)(next_ref s := d), next_ref := Suc (next_ref s)\<rparr>)"

text \<open>The coverage of all modules: module path to (a reference to) its address dictionary.\<close>

type_synonym module_coverage = "(string \<times> ref) list"

subsection \<open>\<^verbatim>\<open>_merge_coverage\<close>\<close>

text \<open>
  \<^verbatim>\<open>
  for addr, cnt in module_coverage.items():
      if addr in cov:
          cov[addr] += cnt
      else:
          cov[addr] = cnt
  \<close>
  The loop reads the items of the object \<open>src\<close> one position after the other, as they
  are in the store when the position is reached, and writes to the object \<open>cov\<close>. The two
  references may be the same object.
\<close>

function merge_items :: "ref \<Rightarrow> ref \<Rightarrow> nat \<Rightarrow> (ref \<Rightarrow> addr_count) \<Rightarrow> (ref \<Rightarrow> addr_count)" where
  "merge_items src cov i h =
     (if i < length (h src) then
        (case h src ! i of
           (addr, cnt) \<Rightarrow>
             merge_items src cov (Suc i)
               (h(cov := (case map_of (h cov) addr of
                            Some old \<Rightarrow> dict_set (h cov) addr (old + cnt)
                          | None \<Rightarrow> dict_set (h cov) addr cnt))))
      else h)"
  by pat_completeness auto
termination
proof (relation "measure (\<lambda>(src, cov, i, h). length (h src) - i)", goal_cases)
  case 1
  show ?case by simp
next
  case (2 src cov i h addr cnt)
  have keep: "length (dict_set d k v) = length d" if "map_of d k \<noteq> None"
    for d :: addr_count and k v
    using that by (induction d) (auto split: if_splits)
  have "(addr, cnt) \<in> set (h src)"
    using 2 by (metis nth_mem)
  then have present: "map_of (h src) addr \<noteq> None"
    by (metis fst_conv image_eqI map_of_eq_None_iff)
  have "length ((h(cov := (case map_of (h cov) addr of
                            Some old \<Rightarrow> dict_set (h cov) addr (old + cnt)
                          | None \<Rightarrow> dict_set (h cov) addr cnt))) src) = length (h src)"
    using present by (auto simp: keep split: option.splits)
  then show ?case using 2 by simp
qed

text \<open>
  \<^verbatim>\<open>
  def _merge_coverage(coverage, module_name, module_coverage):
      if module_name not in coverage:
          coverage[module_name] = module_coverage
      cov = coverage[module_name]
      for addr, cnt in module_coverage.items(): ...
  \<close>
  \<open>module_coverage\<close> is a reference: the assignment stores the object itself, not a copy.
\<close>

definition merge_coverage ::
  "module_coverage \<Rightarrow> string \<Rightarrow> ref \<Rightarrow> store \<Rightarrow> error + (module_coverage \<times> store)" where
  "merge_coverage coverage module_name module_coverage s =
     (let coverage1 = (if map_of coverage module_name = None
                       then dict_set coverage module_name module_coverage
                       else coverage)
      in case map_of coverage1 module_name of
           None \<Rightarrow> Inl KeyError
         | Some cov \<Rightarrow>
             Inr (coverage1, s\<lparr>objs := merge_items module_coverage cov 0 (objs s)\<rparr>))"

text \<open>\<^verbatim>\<open>coverage[module_name]\<close> read as a value, \<open>None\<close> when the module is not a key.\<close>

definition module_entry :: "module_coverage \<times> store \<Rightarrow> string \<Rightarrow> addr_count option" where
  "module_entry cs module_name =
     (case cs of (coverage, s) \<Rightarrow> map_option (objs s) (map_of coverage module_name))"

text \<open>
  Merging a sequence of address dictionaries for one module, each a new object, as
  \<^verbatim>\<open>_get_addr_coverage\<close> does for a module seen in several output folders.
\<close>

fun merge_seq ::
  "string \<Rightarrow> addr_count list \<Rightarrow> module_coverage \<times> store \<Rightarrow> error + (module_coverage \<times> store)" where
  "merge_seq module_name [] cs = Inr cs"
| "merge_seq module_name (d # ds) (coverage, s) =
     (case alloc d s of
        (r, s1) \<Rightarrow>
          (case merge_coverage coverage module_name r s1 of
             Inl e \<Rightarrow> Inl e
           | Inr cs1 \<Rightarrow> merge_seq module_name ds cs1))"

subsection \<open>\<^verbatim>\<open>_get_addr_coverage\<close>: the address dictionary of one module\<close>

text \<open>A translation block as the trace files give it: start address, an unused field, size.\<close>

type_synonym raw_block = "int \<times> int \<times> int"

text \<open>\<^verbatim>\<open>for byte in range(0, size): addr_counts[start_addr + byte] = 1\<close>\<close>

fun add_bytes :: "int \<Rightarrow> int list \<Rightarrow> addr_count \<Rightarrow> addr_count" where
  "add_bytes start_addr [] addr_counts = addr_counts"
| "add_bytes start_addr (byte # bytes) addr_counts =
     add_bytes start_addr bytes (dict_set addr_counts (start_addr + byte) 1)"

text \<open>\<^verbatim>\<open>for start_addr, _, size in coverage: ...\<close>; \<open>range(0, size)\<close> is empty when \<open>size \<le> 0\<close>.\<close>

fun add_blocks :: "raw_block list \<Rightarrow> addr_count \<Rightarrow> addr_count" where
  "add_blocks [] addr_counts = addr_counts"
| "add_blocks ((start_addr, _, sz) # coverage) addr_counts =
     add_blocks coverage (add_bytes start_addr [0..sz - 1] addr_counts)"

text \<open>The local \<^verbatim>\<open>addr_counts\<close>, from \<^verbatim>\<open>{}\<close>, as it is when it is handed to the merge.\<close>

definition block_addr_counts :: "raw_block list \<Rightarrow> addr_count" where
  "block_addr_counts coverage = add_blocks coverage []"

subsection \<open>The environment and the effects\<close>

text \<open>A file\_line\_info dictionary: source file to (line number to execution count).\<close>

type_synonym file_line_info = "(string \<times> (int \<times> int) list) list"

text \<open>
  What the module takes from outside: the file system (\<^verbatim>\<open>os.path.exists\<close>,
  \<^verbatim>\<open>os.path.realpath\<close>, whether \<^verbatim>\<open>open(path, 'w')\<close> succeeds), the project
  (\<^verbatim>\<open>self.project_path\<close>), Python's \<^verbatim>\<open>int\<close> on a string (\<open>None\<close> is its
  ValueError), the trace loader (\<^verbatim>\<open>aggregate_tb_files(get_tb_files(directory))\<close>), the
  symbol manager (\<^verbatim>\<open>syms.get_coverage\<close>, which may raise) and \<^verbatim>\<open>genhtml\<close> (which
  returns the message of its ErrorReturnCode when it fails). The file system is read as
  it is during one call.
\<close>

record env =
  path_exists :: "string \<Rightarrow> bool"
  can_open :: "string \<Rightarrow> bool"
  realpath :: "string \<Rightarrow> string"
  project_path :: "string \<Rightarrow> string"
  to_int :: "string \<Rightarrow> int option"
  tb_coverage_files :: "string \<Rightarrow> (string \<times> raw_block list) list"
  get_coverage :: "string \<Rightarrow> addr_count \<Rightarrow> bool \<Rightarrow> error + file_line_info"
  genhtml :: "string \<Rightarrow> string \<Rightarrow> string option"

datatype log_entry =
    LogInfo string
  | LogWarning string
  | LogSuccess string
  | LogError error

text \<open>
  What a run leaves behind: the files it wrote (path to content), the HTML reports
  \<^verbatim>\<open>genhtml\<close> made (info file, output directory) and the log.
\<close>

record world =
  written :: "string \<Rightarrow> string option"
  reports :: "(string \<times> string) list"
  logged :: "log_entry list"

definition log_msg :: "log_entry \<Rightarrow> world \<Rightarrow> world" where
  "log_msg m w = w\<lparr>logged := logged w @ [m]\<rparr>"

subsection \<open>Strings and paths\<close>

text \<open>\<^verbatim>\<open>'%d' % n\<close> for a Python integer.\<close>

definition digit_char :: "nat \<Rightarrow> char" where
  "digit_char n = ''0123456789'' ! n"

function show_nat :: "nat \<Rightarrow> string" where
  "show_nat n = (if n < 10 then [digit_char n] else show_nat (n div 10) @ [digit_char (n mod 10)])"
  by pat_completeness auto
termination
  by (relation "measure id") auto

definition show_int :: "int \<Rightarrow> string" where
  "show_int i = (if i < 0 then CHR ''-'' # show_nat (nat (- i)) else show_nat (nat i))"

text \<open>\<^verbatim>\<open>s.split(sep)\<close> for a separator of one character.\<close>

fun split_on :: "char \<Rightarrow> string \<Rightarrow> string list" where
  "split_on sep [] = [[]]"
| "split_on sep (c # cs) =
     (if c = sep then [] # split_on sep cs
      else (case split_on sep cs of
              x # xs \<Rightarrow> (c # x) # xs
            | [] \<Rightarrow> [[c]]))"

text \<open>\<^verbatim>\<open>os.path.basename\<close>, \<^verbatim>\<open>os.path.dirname\<close> and \<^verbatim>\<open>os.path.join\<close> of posixpath.\<close>

definition basename :: "string \<Rightarrow> string" where
  "basename p = rev (takeWhile (\<lambda>c. c \<noteq> CHR ''/'') (rev p))"

definition dirname :: "string \<Rightarrow> string" where
  "dirname p =
     (let head = rev (dropWhile (\<lambda>c. c \<noteq> CHR ''/'') (rev p))
      in if head \<noteq> [] \<and> \<not> list_all (\<lambda>c. c = CHR ''/'') head
         then rev (dropWhile (\<lambda>c. c = CHR ''/'') (rev head))
         else head)"

definition path_join :: "string \<Rightarrow> string \<Rightarrow> string" where
  "path_join a b =
     (if b \<noteq> [] \<and> hd b = CHR ''/'' then b
      else if a = [] \<or> last a = CHR ''/'' then a @ b
      else a @ ''/'' @ b)"

subsection \<open>\<^verbatim>\<open>_get_addr_coverage\<close>\<close>

text \<open>
  \<^verbatim>\<open>
  for module_path, coverage in tb_coverage_files.items():
      addr_counts = {}
      ...
      _merge_coverage(aggregated_coverage, module_path, addr_counts)
  \<close>
  Every module gets a new dictionary object; the merge receives its reference.
\<close>

fun merge_modules ::
  "(string \<times> raw_block list) list \<Rightarrow> module_coverage \<times> store \<Rightarrow> error + (module_coverage \<times> store)" where
  "merge_modules [] cs = Inr cs"
| "merge_modules ((module_path, coverage) # rest) (aggregated_coverage, s) =
     (case alloc (block_addr_counts coverage) s of
        (addr_counts, s1) \<Rightarrow>
          (case merge_coverage aggregated_coverage module_path addr_counts s1 of
             Inl e \<Rightarrow> Inl e
           | Inr cs1 \<Rightarrow> merge_modules rest cs1))"

definition get_addr_coverage ::
  "env \<Rightarrow> string \<Rightarrow> module_coverage \<times> store \<Rightarrow> world \<Rightarrow> (error + (module_coverage \<times> store)) \<times> world" where
  "get_addr_coverage e directory cs w =
     (merge_modules (tb_coverage_files e directory) cs,
      log_msg (LogInfo ''Generating translation block coverage information'') w)"

subsection \<open>\<^verbatim>\<open>_save_coverage_info\<close>\<close>

text \<open>
  The inner loop: one \<^verbatim>\<open>DA:\<close> line per item, counting the lines with a count that is
  not zero and all lines. The state is the text written so far and the two counters.
\<close>

fun write_lines :: "(int \<times> int) list \<Rightarrow> string \<times> int \<times> int \<Rightarrow> string \<times> int \<times> int" where
  "write_lines [] st = st"
| "write_lines ((line, count) # rest) (f, num_non_zero_lines, num_instrumented_lines) =
     write_lines rest
       (f @ ''DA:'' @ show_int line @ '','' @ show_int count @ ''\<newline>'',
        (if count \<noteq> 0 then num_non_zero_lines + 1 else num_non_zero_lines),
        num_instrumented_lines + 1)"

text \<open>
  The outer loop over the source files. With \<open>ignore_missing_files\<close>, a file that does
  not exist is logged and skipped (\<^verbatim>\<open>continue\<close>).
\<close>

fun write_files ::
  "env \<Rightarrow> bool \<Rightarrow> file_line_info \<Rightarrow> string \<times> log_entry list \<Rightarrow> string \<times> log_entry list" where
  "write_files e ignore_missing_files [] st = st"
| "write_files e ignore_missing_files ((src_file, lines) # rest) (f, lg) =
     (if ignore_missing_files \<and> \<not> path_exists e src_file
      then write_files e ignore_missing_files rest
             (f, lg @ [LogWarning (src_file @ '' does not exist, skipping'')])
      else
        (case write_lines lines (f @ ''SF:'' @ src_file @ ''\<newline>'', 0, 0) of
           (f1, num_non_zero_lines, num_instrumented_lines) \<Rightarrow>
             write_files e ignore_missing_files rest
               (f1 @ ''LH:'' @ show_int num_non_zero_lines @ ''\<newline>''
                   @ ''LF:'' @ show_int num_instrumented_lines @ ''\<newline>''
                   @ ''end_of_record\<newline>'',
                lg @ [LogInfo src_file])))"

text \<open>
  The whole function: the result is the exception, if any, and the world after the
  call. \<^verbatim>\<open>open\<close> can fail, after the first log line and before anything is written.
\<close>

definition save_coverage_info ::
  "env \<Rightarrow> string \<Rightarrow> file_line_info \<Rightarrow> bool \<Rightarrow> world \<Rightarrow> error option \<times> world" where
  "save_coverage_info e lcov_path file_line_info ignore_missing_files w =
     (let w1 = log_msg (LogInfo (''Writing line coverage to '' @ lcov_path)) w
      in if \<not> can_open e lcov_path then (Some IOError, w1)
         else
           (case write_files e ignore_missing_files file_line_info (''TN:\<newline>'', logged w1) of
              (f, lg) \<Rightarrow>
                (None, w1\<lparr>written := (written w1)(lcov_path \<mapsto> f), logged := lg\<rparr>)))"

text \<open>
  The layout of the report, to state what the writer produces: a text is a sequence of
  lines, each ended by a newline; the record of a source file is its \<open>SF\<close> line, a
  \<open>DA\<close> line per item, \<open>LH\<close> with the number of lines whose count is not zero,
  \<open>LF\<close> with the number of lines, and \<open>end_of_record\<close>; the files that are emitted are
  those that are not skipped.
\<close>

definition unlines :: "string list \<Rightarrow> string" where
  "unlines ls = concat (map (\<lambda>l. l @ ''\<newline>'') ls)"

definition da_line :: "int \<times> int \<Rightarrow> string" where
  "da_line item = (case item of (line, count) \<Rightarrow> ''DA:'' @ show_int line @ '','' @ show_int count)"

definition record_lines :: "string \<times> (int \<times> int) list \<Rightarrow> string list" where
  "record_lines file =
     (case file of
        (src_file, lines) \<Rightarrow>
          [''SF:'' @ src_file] @ map da_line lines @
          [''LH:'' @ show_int (int (length (filter (\<lambda>(line, count). count \<noteq> 0) lines))),
           ''LF:'' @ show_int (int (length lines)),
           ''end_of_record''])"

definition emitted :: "env \<Rightarrow> bool \<Rightarrow> file_line_info \<Rightarrow> file_line_info" where
  "emitted e ignore_missing_files file_line_info =
     filter (\<lambda>(src_file, lines). \<not> (ignore_missing_files \<and> \<not> path_exists e src_file)) file_line_info"

text \<open>The log line of one source file: the warning when it is skipped.\<close>

definition file_log :: "env \<Rightarrow> bool \<Rightarrow> string \<times> (int \<times> int) list \<Rightarrow> log_entry" where
  "file_log e ign file = (case file of (src_file, lines) \<Rightarrow>
      if ign \<and> \<not> path_exists e src_file then LogWarning (src_file @ '' does not exist, skipping'')
      else LogInfo src_file)"

text \<open>The number of lines of a text that are equal to a given line.\<close>

definition count_lines :: "string \<Rightarrow> string \<Rightarrow> nat" where
  "count_lines l txt = length (filter (\<lambda>x. x = l) (split_on CHR ''\<newline>'' txt))"

subsection \<open>\<^verbatim>\<open>_gen_html\<close>\<close>

definition gen_html :: "env \<Rightarrow> string \<Rightarrow> string \<Rightarrow> world \<Rightarrow> error option \<times> world" where
  "gen_html e lcov_info_path lcov_html_dir w =
     (case genhtml e lcov_info_path lcov_html_dir of
        Some msg \<Rightarrow> (Some (CommandError msg), w)
      | None \<Rightarrow> (None, w\<lparr>reports := reports w @ [(lcov_info_path, lcov_html_dir)]\<rparr>))"

subsection \<open>\<^verbatim>\<open>LineCoverage._get_output_folders\<close>\<close>

record options =
  html :: bool
  lcov_out_dir :: "string option"
  aggregate_outputs :: int
  s2e_out_dir :: "string list"
  include_covered_files_only :: bool

text \<open>
  \<^verbatim>\<open>
  for i in range(0, last_n_outputs):
      output_dir = os.path.join(dirname, 's2e-out-%d' % (int(index) - i))
      if os.path.exists(output_dir):
          ret.append(output_dir)
  \<close>
  \<^verbatim>\<open>int(index)\<close> is evaluated in every round, so not at all when the range is empty.
\<close>

fun collect_outputs :: "env \<Rightarrow> string \<Rightarrow> string \<Rightarrow> int list \<Rightarrow> string list \<Rightarrow> error + string list" where
  "collect_outputs e dir index [] ret = Inr ret"
| "collect_outputs e dir index (i # rest) ret =
     (case to_int e index of
        None \<Rightarrow> Inl ValueError
      | Some n \<Rightarrow>
          (let output_dir = path_join dir (''s2e-out-'' @ show_int (n - i))
           in collect_outputs e dir index rest
                (if path_exists e output_dir then ret @ [output_dir] else ret)))"

text \<open>
  \<^verbatim>\<open>_, _, index = base.split('-')\<close> raises ValueError unless the split has exactly
  three parts.
\<close>

definition get_output_folders :: "env \<Rightarrow> options \<Rightarrow> error + string list" where
  "get_output_folders e opts =
     (let last_n_outputs = aggregate_outputs opts
      in if last_n_outputs \<noteq> 0 then
           (let s2e_last = realpath e (project_path e ''s2e-last'');
                dir = dirname s2e_last;
                base = basename s2e_last
            in case split_on CHR ''-'' base of
                 [_, _, index] \<Rightarrow> collect_outputs e dir index [0..last_n_outputs - 1] []
               | _ \<Rightarrow> Inl ValueError)
         else if s2e_out_dir opts = [] then Inr [project_path e ''s2e-last'']
         else Inr (s2e_out_dir opts))"

subsection \<open>\<^verbatim>\<open>LineCoverage.handle\<close>\<close>

text \<open>The first loop: every output folder is folded into the one coverage dictionary.\<close>

fun extract_dirs ::
  "env \<Rightarrow> string list \<Rightarrow> module_coverage \<times> store \<Rightarrow> world \<Rightarrow> (error + (module_coverage \<times> store)) \<times> world" where
  "extract_dirs e [] cs w = (Inr cs, w)"
| "extract_dirs e (directory # rest) cs w =
     (case get_addr_coverage e directory cs
             (log_msg (LogInfo (''Extracting coverage info from '' @ directory @ ''...'')) w) of
        (Inl err, w1) \<Rightarrow> (Inl err, w1)
      | (Inr cs1, w1) \<Rightarrow> extract_dirs e rest cs1 w1)"

text \<open>The body of the \<^verbatim>\<open>try\<close> for one module: the exception it ends with, if any.\<close>

definition module_report ::
  "env \<Rightarrow> bool \<Rightarrow> bool \<Rightarrow> string \<Rightarrow> string \<Rightarrow> addr_count \<Rightarrow> world \<Rightarrow> error option \<times> world" where
  "module_report e cov do_gen_html out_dir module_path addr_counts w =
     (case get_coverage e module_path addr_counts cov of
        Inl err \<Rightarrow> (Some err, w)
      | Inr file_line_info \<Rightarrow>
          (let module = basename module_path;
               lcov_info_path = path_join out_dir (module @ ''.info'')
           in case save_coverage_info e lcov_info_path file_line_info do_gen_html w of
                (Some err, w1) \<Rightarrow> (Some err, w1)
              | (None, w1) \<Rightarrow>
                  (let w2 = log_msg (LogSuccess (''Line coverage saved to '' @ lcov_info_path)) w1
                   in if do_gen_html then
                        (let lcov_html_dir = path_join out_dir (module @ ''_lcov'')
                         in case gen_html e lcov_info_path lcov_html_dir w2 of
                              (Some err, w3) \<Rightarrow> (Some err, w3)
                            | (None, w3) \<Rightarrow>
                                (None, log_msg (LogSuccess (''An HTML report is available in ''
                                         @ lcov_html_dir @ ''/index.html'')) w3))
                      else (None, w2))))"

text \<open>
  One round of the second loop: the body of the \<^verbatim>\<open>try\<close> and the handler
  \<^verbatim>\<open>except Exception as e: logger.error(e); continue\<close>.
\<close>

definition module_step ::
  "env \<Rightarrow> bool \<Rightarrow> bool \<Rightarrow> string \<Rightarrow> string \<Rightarrow> addr_count \<Rightarrow> world \<Rightarrow> world" where
  "module_step e cov do_gen_html out_dir module_path addr_counts w =
     (case module_report e cov do_gen_html out_dir module_path addr_counts w of
        (Some err, w1) \<Rightarrow> log_msg (LogError err) w1
      | (None, w1) \<Rightarrow> w1)"

text \<open>The second loop: \<^verbatim>\<open>for module_path, addr_counts in coverage.items()\<close>.\<close>

fun process_modules ::
  "env \<Rightarrow> bool \<Rightarrow> bool \<Rightarrow> string \<Rightarrow> (string \<times> addr_count) list \<Rightarrow> world \<Rightarrow> world" where
  "process_modules e cov do_gen_html out_dir [] w = w"
| "process_modules e cov do_gen_html out_dir ((module_path, addr_counts) # rest) w =
     process_modules e cov do_gen_html out_dir rest
       (module_step e cov do_gen_html out_dir module_path addr_counts w)"

text \<open>
  \<^verbatim>\<open>handle\<close>: an exception of \<^verbatim>\<open>_get_output_folders\<close> or of the first loop is not
  caught and ends the command.
\<close>

definition handle :: "env \<Rightarrow> options \<Rightarrow> world \<Rightarrow> error option \<times> world" where
  "handle e opts w =
     (let do_gen_html = html opts;
          out_dir = (case lcov_out_dir opts of
                       None \<Rightarrow> project_path e ''s2e-last''
                     | Some d \<Rightarrow> if d = [] then project_path e ''s2e-last'' else d)
      in case get_output_folders e opts of
           Inl err \<Rightarrow> (Some err, w)
         | Inr dirs \<Rightarrow>
             (case extract_dirs e dirs ([], empty_store) w of
                (Inl err, w1) \<Rightarrow> (Some err, w1)
              | (Inr (coverage, s), w1) \<Rightarrow>
                  (None,
                   process_modules e (include_covered_files_only opts) do_gen_html out_dir
                     (map (\<lambda>(module_path, r). (module_path, objs s r)) coverage) w1)))"

subsection \<open>An environment for the examples\<close>

text \<open>
  A project in \<open>/proj\<close> whose \<open>s2e-last\<close> link resolves to \<open>/proj/s2e-out-10\<close>; the
  paths that exist are given; every output file can be opened; the symbol manager
  fails on the module \<open>/bin/bad\<close> and knows one source file for every other module.
\<close>

definition example_env :: "string list \<Rightarrow> env" where
  "example_env present =
     \<lparr>path_exists = (\<lambda>p. p \<in> set present),
      can_open = (\<lambda>p. True),
      realpath = (\<lambda>p. if p = ''/proj/s2e-last'' then ''/proj/s2e-out-10'' else p),
      project_path = (\<lambda>p. ''/proj/'' @ p),
      to_int = (\<lambda>s. if s = ''10'' then Some 10 else None),
      tb_coverage_files = (\<lambda>d. []),
      get_coverage = (\<lambda>module_path addr_counts cov.
         if module_path = ''/bin/bad'' then Inl (ResolverError ''no debug information'')
         else Inr [(''/a.c'', [(10, 2), (11, 0), (12, 1)])]),
      genhtml = (\<lambda>info dir. None)\<rparr>"

definition empty_world :: world where
  "empty_world = \<lparr>written = (\<lambda>p. None), reports = [], logged = []\<rparr>"

section \<open>Properties\<close>

lemma map_of_dict_set: "map_of (dict_set d k v) = (map_of d)(k \<mapsto> v)"
  by (induction d) auto

subsection \<open>Dictionaries and the block expansion\<close>

lemma dict_set_keys: "map fst (dict_set d k v) = (if map_of d k = None then map fst d @ [k] else map fst d)"
  by (induction d) auto

lemma dict_set_distinct: "distinct (map fst d) \<Longrightarrow> distinct (map fst (dict_set d k v))"
  by (induction d) (auto simp: dict_set_keys map_of_eq_None_iff)

lemma map_of_add_bytes:
  "map_of (add_bytes s bs d) a = (if a \<in> (\<lambda>b. s + b) ` set bs then Some 1 else map_of d a)"
  by (induction bs arbitrary: d) (auto simp: map_of_dict_set)

lemma distinct_add_bytes: "distinct (map fst d) \<Longrightarrow> distinct (map fst (add_bytes s bs d))"
  by (induction bs arbitrary: d) (auto simp: dict_set_distinct)

lemma map_of_add_blocks:
  "map_of (add_blocks cov d) a =
     (if \<exists>(start, unused, sz) \<in> set cov. \<exists>b. 0 \<le> b \<and> b < sz \<and> a = start + b then Some 1 else map_of d a)"
proof (induction cov arbitrary: d)
  case Nil
  then show ?case by simp
next
  case (Cons blk cov)
  obtain start unused sz where blk: "blk = (start, unused, sz)" by (cases blk)
  define hit where "hit \<longleftrightarrow> (\<exists>b. 0 \<le> b \<and> b < sz \<and> a = start + b)"
  define later where
    "later \<longleftrightarrow> (\<exists>(start, unused, sz) \<in> set cov. \<exists>b. 0 \<le> b \<and> b < sz \<and> a = start + b)"
  have "a \<in> (\<lambda>b. start + b) ` set [0..sz - 1] \<longleftrightarrow> hit"
  proof
    assume "a \<in> (\<lambda>b. start + b) ` set [0..sz - 1]"
    then obtain b where "b \<in> set [0..sz - 1]" "a = start + b" by blast
    then have "0 \<le> b \<and> b < sz \<and> a = start + b" by simp
    then show hit unfolding hit_def ..
  next
    assume hit
    then obtain b where "0 \<le> b" "b < sz" "a = start + b" unfolding hit_def by blast
    then have "b \<in> set [0..sz - 1]" by simp
    with \<open>a = start + b\<close> show "a \<in> (\<lambda>b. start + b) ` set [0..sz - 1]" by blast
  qed
  then have bytes: "map_of (add_bytes start [0..sz - 1] d) a = (if hit then Some 1 else map_of d a)"
    by (simp only: map_of_add_bytes)
  have split: "(\<exists>(start, unused, sz) \<in> set (blk # cov). \<exists>b. 0 \<le> b \<and> b < sz \<and> a = start + b)
       \<longleftrightarrow> hit \<or> later"
    by (simp add: blk hit_def later_def)
  have "map_of (add_blocks (blk # cov) d) a = map_of (add_blocks cov (add_bytes start [0..sz - 1] d)) a"
    by (simp add: blk)
  also have "\<dots> = (if later then Some 1 else map_of (add_bytes start [0..sz - 1] d) a)"
    unfolding later_def by (rule Cons.IH)
  also have "\<dots> = (if hit \<or> later then Some 1 else map_of d a)"
    by (simp add: bytes)
  finally show ?case by (simp only: split)
qed

lemma distinct_add_blocks: "distinct (map fst d) \<Longrightarrow> distinct (map fst (add_blocks cov d))"
  by (induction cov arbitrary: d) (auto simp: distinct_add_bytes)

subsection \<open>The merge\<close>

lemma dict_set_nth:
  "distinct (map fst d) \<Longrightarrow> i < length d \<Longrightarrow> dict_set d (fst (d ! i)) v = d[i := (fst (d ! i), v)]"
proof (induction d arbitrary: i)
  case Nil
  then show ?case by simp
next
  case (Cons p d)
  obtain k w where p: "p = (k, w)" by (cases p)
  show ?case
  proof (cases i)
    case 0
    then show ?thesis by (simp add: p)
  next
    case (Suc j)
    with Cons.prems have "j < length d" by simp
    then have "fst (d ! j) \<in> set (map fst d)" by simp
    with Cons.prems have "k \<noteq> fst (d ! j)" by (auto simp: p)
    with Cons Suc \<open>j < length d\<close> show ?thesis by (simp add: p)
  qed
qed

lemma map_of_nth:
  "distinct (map fst d) \<Longrightarrow> i < length d \<Longrightarrow> map_of d (fst (d ! i)) = Some (snd (d ! i))"
  by (simp add: map_of_eq_Some_iff)

lemma merge_items_self:
  "distinct (map fst (h r)) \<Longrightarrow> i \<le> length (h r) \<Longrightarrow>
   merge_items r r i h = h(r := take i (h r) @ map (\<lambda>(a, c). (a, c + c)) (drop i (h r)))"
proof (induction "length (h r) - i" arbitrary: i h)
  case 0
  then have "i = length (h r)" by simp
  then show ?case using merge_items.simps [of r r i h] by simp
next
  case (Suc n)
  then have lt: "i < length (h r)" by simp
  obtain addr cnt where item: "h r ! i = (addr, cnt)" by (cases "h r ! i")
  have look: "map_of (h r) addr = Some cnt"
    using map_of_nth [OF Suc.prems(1) lt] by (simp add: item)
  have upd: "dict_set (h r) addr (cnt + cnt) = (h r)[i := (addr, cnt + cnt)]"
    using dict_set_nth [OF Suc.prems(1) lt, of "cnt + cnt"] by (simp add: item)
  define h' where "h' = h(r := (h r)[i := (addr, cnt + cnt)])"
  have keys: "map fst (h' r) = map fst (h r)"
    using lt item by (simp add: h'_def map_update) (metis fst_conv list_update_id map_update)
  have "merge_items r r i h =
          merge_items r r (Suc i) (h(r := dict_set (h r) addr (cnt + cnt)))"
    using merge_items.simps [of r r i h] lt by (simp only: item look if_True prod.case option.case)
  then have step: "merge_items r r i h = merge_items r r (Suc i) h'"
    by (simp only: upd h'_def)
  have "merge_items r r (Suc i) h' =
          h'(r := take (Suc i) (h' r) @ map (\<lambda>(a, c). (a, c + c)) (drop (Suc i) (h' r)))"
  proof (rule Suc.hyps(1))
    show "n = length (h' r) - Suc i" using Suc.hyps(2) by (simp add: h'_def)
    show "distinct (map fst (h' r))" using Suc.prems(1) by (simp only: keys)
    show "Suc i \<le> length (h' r)" using lt by (simp add: h'_def)
  qed
  also have "\<dots> = h(r := take i (h r) @ map (\<lambda>(a, c). (a, c + c)) (drop i (h r)))"
  proof -
    have "take (Suc i) (h' r) = take i (h r) @ [(addr, cnt + cnt)]"
      using lt by (simp add: h'_def take_Suc_conv_app_nth)
    moreover have "drop (Suc i) (h' r) = drop (Suc i) (h r)"
      by (simp add: h'_def)
    moreover have "drop i (h r) = (addr, cnt) # drop (Suc i) (h r)"
      using lt item by (metis Cons_nth_drop_Suc)
    ultimately show ?thesis by (simp add: h'_def)
  qed
  finally show ?case using step by simp
qed

lemma merge_coverage_absent:
  assumes "map_of coverage m = None" and "distinct (map fst (objs s r))"
  shows "merge_coverage coverage m r s =
           Inr (dict_set coverage m r, s\<lparr>objs := (objs s)(r := map (\<lambda>(a, c). (a, c + c)) (objs s r))\<rparr>)"
  using assms merge_items_self [of "objs s" r 0]
  by (simp add: merge_coverage_def map_of_dict_set)

lemma merge_coverage_total: "\<exists>cs. merge_coverage coverage m r s = Inr cs"
  by (auto simp: merge_coverage_def Let_def map_of_dict_set split: option.splits)

text \<open>
  C1 (the code departs from the claim): merging into a coverage that has no entry for
  the module stores the incoming dictionary itself and then adds it to itself, so the
  entry does not keep the counts the dictionary had at the call. For the incoming
  dictionary \<open>{100: 1, 101: 1}\<close> and an empty coverage, the entry is
  \<open>{100: 2, 101: 2}\<close> after the call.
\<close>

theorem merge_absent_module_doubles_counts:
  "(case alloc [(100, 1), (101, 1)] empty_store of
      (r, s) \<Rightarrow> map_sum id (\<lambda>cs. module_entry cs ''mod'') (merge_coverage [] ''mod'' r s))
   = Inr (Some [(100, 2), (101, 2)])"
  by code_simp

text \<open>
  C2 (the code departs from the claim): the result of merging two dictionaries for
  one module into an empty coverage depends on the order. With \<open>A = 1\<close>, \<open>B = 2\<close>,
  \<open>C = 3\<close>: merging \<open>{A: 1, B: 2}\<close> then \<open>{B: 3, C: 1}\<close> gives \<open>{A: 2, B: 7, C: 1}\<close>,
  the other order gives \<open>{B: 8, C: 2, A: 1}\<close>; the first dictionary merged is counted
  twice.
\<close>

theorem merge_order_changes_result:
  "map_sum id (\<lambda>cs. module_entry cs ''mod'')
     (merge_seq ''mod'' [[(1, 1), (2, 2)], [(2, 3), (3, 1)]] ([], empty_store))
   = Inr (Some [(1, 2), (2, 7), (3, 1)])
   \<and> map_sum id (\<lambda>cs. module_entry cs ''mod'')
     (merge_seq ''mod'' [[(2, 3), (3, 1)], [(1, 1), (2, 2)]] ([], empty_store))
   = Inr (Some [(2, 8), (3, 2), (1, 1)])"
  by code_simp

text \<open>
  C3: the local address dictionary of a module holds exactly the addresses
  \<open>start + b\<close> for an entry \<open>(start, _, size)\<close> of the module and a byte offset
  \<open>0 \<le> b < size\<close>, each once and each with the count 1, also where blocks overlap.
  The entry \<open>(100, _, 4)\<close> gives \<open>{100: 1, 101: 1, 102: 1, 103: 1}\<close>, and the
  overlapping entries \<open>(100, _, 4)\<close> and \<open>(102, _, 3)\<close> give the addresses 100 to 104
  with the count 1.
\<close>

theorem block_addr_counts_expansion:
  "map_of (block_addr_counts coverage) a =
     (if \<exists>(start, unused, sz) \<in> set coverage. \<exists>b. 0 \<le> b \<and> b < sz \<and> a = start + b
      then Some 1 else None)
   \<and> distinct (map fst (block_addr_counts coverage))
   \<and> block_addr_counts [(100, e, 4)] = [(100, 1), (101, 1), (102, 1), (103, 1)]
   \<and> block_addr_counts [(100, e, 4), (102, e', 3)]
       = [(100, 1), (101, 1), (102, 1), (103, 1), (104, 1)]"
proof (intro conjI)
  show "map_of (block_addr_counts coverage) a =
     (if \<exists>(start, unused, sz) \<in> set coverage. \<exists>b. 0 \<le> b \<and> b < sz \<and> a = start + b
      then Some 1 else None)"
    unfolding block_addr_counts_def by (simp only: map_of_add_blocks map_of.simps)
  show "distinct (map fst (block_addr_counts coverage))"
    unfolding block_addr_counts_def by (rule distinct_add_blocks) simp
  show "block_addr_counts [(100, e, 4)] = [(100, 1), (101, 1), (102, 1), (103, 1)]"
    by code_simp
  show "block_addr_counts [(100, e, 4), (102, e', 3)]
       = [(100, 1), (101, 1), (102, 1), (103, 1), (104, 1)]"
    by code_simp
qed

subsection \<open>The writer\<close>

lemma write_lines_eq:
  "write_lines lines (f, nz, ni) =
     (f @ unlines (map da_line lines),
      nz + int (length (filter (\<lambda>(line, count). count \<noteq> 0) lines)),
      ni + int (length lines))"
  by (induction lines arbitrary: f nz ni) (auto simp: unlines_def da_line_def)

lemma unlines_append: "unlines (a @ b) = unlines a @ unlines b"
  by (simp add: unlines_def)

lemma write_files_skip:
  "ign \<and> \<not> path_exists e src_file \<Longrightarrow>
   write_files e ign ((src_file, lines) # fli) (f, lg) =
     write_files e ign fli (f, lg @ [LogWarning (src_file @ '' does not exist, skipping'')])"
  by simp

lemma write_files_emit:
  "\<not> (ign \<and> \<not> path_exists e src_file) \<Longrightarrow>
   write_files e ign ((src_file, lines) # fli) (f, lg) =
     write_files e ign fli (f @ unlines (record_lines (src_file, lines)), lg @ [LogInfo src_file])"
  by (cases ign) (simp_all add: write_lines_eq record_lines_def unlines_def)

lemma write_files_eq:
  "write_files e ign fli (f, lg) =
     (f @ unlines (concat (map record_lines (emitted e ign fli))), lg @ map (file_log e ign) fli)"
proof (induction fli arbitrary: f lg)
  case Nil
  then show ?case by (simp add: unlines_def emitted_def)
next
  case (Cons fl fli)
  obtain src_file lines where fl: "fl = (src_file, lines)" by (cases fl)
  show ?case
  proof (cases "ign \<and> \<not> path_exists e src_file")
    case True
    then have "emitted e ign (fl # fli) = emitted e ign fli"
      by (simp add: fl emitted_def)
    moreover have "file_log e ign fl = LogWarning (src_file @ '' does not exist, skipping'')"
      using True by (simp add: fl file_log_def)
    ultimately show ?thesis
      unfolding fl using write_files_skip [OF True] Cons.IH by (simp add: fl)
  next
    case False
    then have "emitted e ign (fl # fli) = fl # emitted e ign fli"
      by (simp add: fl emitted_def)
    moreover have "file_log e ign fl = LogInfo src_file"
      using False by (simp add: fl file_log_def)
    ultimately show ?thesis
      unfolding fl using write_files_emit [OF False] Cons.IH by (simp add: fl unlines_append)
  qed
qed

lemma save_coverage_info_eq:
  "can_open e p \<Longrightarrow>
   save_coverage_info e p fli ign w =
     (None, w\<lparr>written := (written w)(p \<mapsto> unlines (''TN:'' # concat (map record_lines (emitted e ign fli)))),
              logged := logged w @ LogInfo (''Writing line coverage to '' @ p) # map (file_log e ign) fli\<rparr>)"
  by (simp add: save_coverage_info_def log_msg_def write_files_eq unlines_def)

lemma save_coverage_info_fail:
  "\<not> can_open e p \<Longrightarrow>
   save_coverage_info e p fli ign w = (Some IOError, log_msg (LogInfo (''Writing line coverage to '' @ p)) w)"
  by (simp add: save_coverage_info_def)

text \<open>
  C4: when the output file can be opened, the text written is the \<open>TN:\<close> line
  followed, for every source file that is emitted (not skipped), in the order of the
  dictionary, by its record: \<open>SF:\<close> with the path, one \<open>DA:line,count\<close> per item in
  the order of the inner dictionary, \<open>LH:\<close> with the number of lines whose count is
  not zero, \<open>LF:\<close> with the number of lines, and \<open>end_of_record\<close>. For
  \<open>{"/a.c": {10: 2, 11: 0, 12: 1}}\<close> the lines after \<open>TN:\<close> are \<open>SF:/a.c\<close>,
  \<open>DA:10,2\<close>, \<open>DA:11,0\<close>, \<open>DA:12,1\<close>, \<open>LH:2\<close>, \<open>LF:3\<close>, \<open>end_of_record\<close>.
\<close>

theorem save_coverage_info_records:
  assumes "can_open e lcov_path"
  shows "written (snd (save_coverage_info e lcov_path file_line_info ignore_missing_files w)) lcov_path
           = Some (unlines (''TN:'' # concat (map record_lines
                     (emitted e ignore_missing_files file_line_info))))
         \<and> written (snd (save_coverage_info e lcov_path
                     [(''/a.c'', [(10, 2), (11, 0), (12, 1)])] False w)) lcov_path
           = Some ''TN:\<newline>SF:/a.c\<newline>DA:10,2\<newline>DA:11,0\<newline>DA:12,1\<newline>LH:2\<newline>LF:3\<newline>end_of_record\<newline>''"
proof
  show "written (snd (save_coverage_info e lcov_path file_line_info ignore_missing_files w)) lcov_path
           = Some (unlines (''TN:'' # concat (map record_lines
                     (emitted e ignore_missing_files file_line_info))))"
    using assms by (simp add: save_coverage_info_eq)
  have "unlines (''TN:'' # concat (map record_lines (emitted e False [(''/a.c'', [(10, 2), (11, 0), (12, 1)])])))
        = ''TN:\<newline>SF:/a.c\<newline>DA:10,2\<newline>DA:11,0\<newline>DA:12,1\<newline>LH:2\<newline>LF:3\<newline>end_of_record\<newline>''"
    by code_simp
  then show "written (snd (save_coverage_info e lcov_path
                     [(''/a.c'', [(10, 2), (11, 0), (12, 1)])] False w)) lcov_path
           = Some ''TN:\<newline>SF:/a.c\<newline>DA:10,2\<newline>DA:11,0\<newline>DA:12,1\<newline>LH:2\<newline>LF:3\<newline>end_of_record\<newline>''"
    using assms by (simp only: save_coverage_info_eq) simp
qed

theorem save_coverage_info_records_witness:
  "can_open (example_env [''/a.c'']) ''/out/m.info''
   \<and> written (snd (save_coverage_info (example_env [''/a.c'']) ''/out/m.info''
         [(''/a.c'', [(10, 2), (11, 0), (12, 1)]), (''/gone.c'', [(7, 1)])] True empty_world)) ''/out/m.info''
       = Some ''TN:\<newline>SF:/a.c\<newline>DA:10,2\<newline>DA:11,0\<newline>DA:12,1\<newline>LH:2\<newline>LF:3\<newline>end_of_record\<newline>''"
proof -
  have h: "can_open (example_env [''/a.c'']) ''/out/m.info''"
    by (simp add: example_env_def)
  have "unlines (''TN:'' # concat (map record_lines (emitted (example_env [''/a.c'']) True
          [(''/a.c'', [(10, 2), (11, 0), (12, 1)]), (''/gone.c'', [(7, 1)])])))
        = ''TN:\<newline>SF:/a.c\<newline>DA:10,2\<newline>DA:11,0\<newline>DA:12,1\<newline>LH:2\<newline>LF:3\<newline>end_of_record\<newline>''"
    by code_simp
  then show ?thesis
    using h save_coverage_info_records [OF h, of "[(''/a.c'', [(10, 2), (11, 0), (12, 1)]), (''/gone.c'', [(7, 1)])]" True empty_world]
    by simp
qed

lemma emitted_True: "emitted e True fli = filter (\<lambda>(src_file, lines). path_exists e src_file) fli"
  by (simp add: emitted_def)

lemma emitted_False: "emitted e False fli = fli"
  by (simp add: emitted_def)

lemma emitted_none:
  "fli = [] \<or> (ign \<and> (\<forall>(src_file, lines) \<in> set fli. \<not> path_exists e src_file)) \<Longrightarrow> emitted e ign fli = []"
  by (auto simp: emitted_def filter_empty_conv)

text \<open>
  C7: with \<open>ignore_missing_files\<close>, when the output file can be opened, the call
  raises nothing, the text written is the one the writer produces for the dictionary
  without the source files that do not exist (their whole records are left out, the
  records of the files that exist are as they are otherwise), and a warning is logged for
  every source file that does not exist.
\<close>

theorem save_coverage_info_skips_missing:
  assumes "can_open e lcov_path"
  shows "fst (save_coverage_info e lcov_path file_line_info True w) = None
         \<and> written (snd (save_coverage_info e lcov_path file_line_info True w)) lcov_path
             = written (snd (save_coverage_info e lcov_path
                 (filter (\<lambda>(src_file, lines). path_exists e src_file) file_line_info) False w)) lcov_path
         \<and> written (snd (save_coverage_info e lcov_path file_line_info True w)) lcov_path
             = Some (unlines (''TN:'' # concat (map record_lines
                 (filter (\<lambda>(src_file, lines). path_exists e src_file) file_line_info))))
         \<and> (\<forall>(src_file, lines) \<in> set file_line_info.
               \<not> path_exists e src_file \<longrightarrow>
               LogWarning (src_file @ '' does not exist, skipping'')
                 \<in> set (logged (snd (save_coverage_info e lcov_path file_line_info True w))))"
proof (intro conjI)
  show "fst (save_coverage_info e lcov_path file_line_info True w) = None"
    using assms by (simp add: save_coverage_info_eq)
  show "written (snd (save_coverage_info e lcov_path file_line_info True w)) lcov_path
             = written (snd (save_coverage_info e lcov_path
                 (filter (\<lambda>(src_file, lines). path_exists e src_file) file_line_info) False w)) lcov_path"
    using assms by (simp add: save_coverage_info_eq emitted_True emitted_False)
  show "written (snd (save_coverage_info e lcov_path file_line_info True w)) lcov_path
             = Some (unlines (''TN:'' # concat (map record_lines
                 (filter (\<lambda>(src_file, lines). path_exists e src_file) file_line_info))))"
    using assms by (simp add: save_coverage_info_eq emitted_True)
  show "\<forall>(src_file, lines) \<in> set file_line_info.
               \<not> path_exists e src_file \<longrightarrow>
               LogWarning (src_file @ '' does not exist, skipping'')
                 \<in> set (logged (snd (save_coverage_info e lcov_path file_line_info True w)))"
  proof (clarify)
    fix src_file lines
    assume "(src_file, lines) \<in> set file_line_info" and "\<not> path_exists e src_file"
    then have "file_log e True (src_file, lines) \<in> set (map (file_log e True) file_line_info)"
      and "file_log e True (src_file, lines) = LogWarning (src_file @ '' does not exist, skipping'')"
      by (simp, simp add: file_log_def)
    then have "LogWarning (src_file @ '' does not exist, skipping'')
                 \<in> set (map (file_log e True) file_line_info)"
      by (simp only:)
    then show "LogWarning (src_file @ '' does not exist, skipping'')
                 \<in> set (logged (snd (save_coverage_info e lcov_path file_line_info True w)))"
      using assms by (simp only: save_coverage_info_eq) simp
  qed
qed

theorem save_coverage_info_skips_missing_witness:
  "can_open (example_env [''/a.c'']) ''/out/m.info''
   \<and> fst (save_coverage_info (example_env [''/a.c'']) ''/out/m.info''
         [(''/gone.c'', [(7, 1)]), (''/a.c'', [(10, 2)])] True empty_world) = None
   \<and> written (snd (save_coverage_info (example_env [''/a.c'']) ''/out/m.info''
         [(''/gone.c'', [(7, 1)]), (''/a.c'', [(10, 2)])] True empty_world)) ''/out/m.info''
       = Some ''TN:\<newline>SF:/a.c\<newline>DA:10,2\<newline>LH:1\<newline>LF:1\<newline>end_of_record\<newline>''
   \<and> LogWarning ''/gone.c does not exist, skipping''
       \<in> set (logged (snd (save_coverage_info (example_env [''/a.c'']) ''/out/m.info''
            [(''/gone.c'', [(7, 1)]), (''/a.c'', [(10, 2)])] True empty_world)))"
proof -
  have h: "can_open (example_env [''/a.c'']) ''/out/m.info''"
    by (simp add: example_env_def)
  have gone: "\<not> path_exists (example_env [''/a.c'']) ''/gone.c''"
    by (simp add: example_env_def)
  have content: "unlines (''TN:'' # concat (map record_lines
          (filter (\<lambda>(src_file, lines). path_exists (example_env [''/a.c'']) src_file)
             [(''/gone.c'', [(7, 1)]), (''/a.c'', [(10, 2)])])))
        = ''TN:\<newline>SF:/a.c\<newline>DA:10,2\<newline>LH:1\<newline>LF:1\<newline>end_of_record\<newline>''"
    by code_simp
  note t = save_coverage_info_skips_missing [OF h, of "[(''/gone.c'', [(7, 1)]), (''/a.c'', [(10, 2)])]" empty_world]
  from t have a: "fst (save_coverage_info (example_env [''/a.c'']) ''/out/m.info''
         [(''/gone.c'', [(7, 1)]), (''/a.c'', [(10, 2)])] True empty_world) = None" by blast
  from t have b0: "written (snd (save_coverage_info (example_env [''/a.c'']) ''/out/m.info''
         [(''/gone.c'', [(7, 1)]), (''/a.c'', [(10, 2)])] True empty_world)) ''/out/m.info''
       = Some (unlines (''TN:'' # concat (map record_lines
          (filter (\<lambda>(src_file, lines). path_exists (example_env [''/a.c'']) src_file)
             [(''/gone.c'', [(7, 1)]), (''/a.c'', [(10, 2)])]))))"
    by blast
  from b0 content have b: "written (snd (save_coverage_info (example_env [''/a.c'']) ''/out/m.info''
         [(''/gone.c'', [(7, 1)]), (''/a.c'', [(10, 2)])] True empty_world)) ''/out/m.info''
       = Some ''TN:\<newline>SF:/a.c\<newline>DA:10,2\<newline>LH:1\<newline>LF:1\<newline>end_of_record\<newline>''"
    by (simp only:)
  from t gone have c: "LogWarning (''/gone.c'' @ '' does not exist, skipping'')
       \<in> set (logged (snd (save_coverage_info (example_env [''/a.c'']) ''/out/m.info''
            [(''/gone.c'', [(7, 1)]), (''/a.c'', [(10, 2)])] True empty_world)))"
    by fastforce
  from h a b c show ?thesis by simp
qed

text \<open>
  C10: for the empty dictionary, and when \<open>ignore_missing_files\<close> is set and no source
  file of the dictionary exists, the writer (given that the output file can be opened)
  raises nothing and writes the output file, whose whole content is the line \<open>TN:\<close>
  and its newline.
\<close>

theorem save_coverage_info_no_records:
  assumes "can_open e lcov_path"
    and "file_line_info = [] \<or>
         (ignore_missing_files \<and> (\<forall>(src_file, lines) \<in> set file_line_info. \<not> path_exists e src_file))"
  shows "fst (save_coverage_info e lcov_path file_line_info ignore_missing_files w) = None
         \<and> written (snd (save_coverage_info e lcov_path file_line_info ignore_missing_files w)) lcov_path
             = Some ''TN:\<newline>''"
  using assms(1) emitted_none [OF assms(2)]
  by (simp add: save_coverage_info_eq unlines_def)

theorem save_coverage_info_no_records_witness:
  "can_open (example_env []) ''/out/m.info''
   \<and> fst (save_coverage_info (example_env []) ''/out/m.info'' [] False empty_world) = None
   \<and> written (snd (save_coverage_info (example_env []) ''/out/m.info'' [] False empty_world)) ''/out/m.info''
       = Some ''TN:\<newline>''
   \<and> fst (save_coverage_info (example_env []) ''/out/m.info''
         [(''/gone.c'', [(7, 1)]), (''/lost.c'', [(1, 0)])] True empty_world) = None
   \<and> written (snd (save_coverage_info (example_env []) ''/out/m.info''
         [(''/gone.c'', [(7, 1)]), (''/lost.c'', [(1, 0)])] True empty_world)) ''/out/m.info''
       = Some ''TN:\<newline>''"
proof -
  have h: "can_open (example_env []) ''/out/m.info''"
    by (simp add: example_env_def)
  have none: "[(''/gone.c'', [(7, 1)]), (''/lost.c'', [(1::int, 0::int)])] = [] \<or>
     (True \<and> (\<forall>(src_file, lines) \<in> set [(''/gone.c'', [(7, 1)]), (''/lost.c'', [(1::int, 0::int)])].
        \<not> path_exists (example_env []) src_file))"
    by (simp add: example_env_def)
  have empty: "([] :: file_line_info) = [] \<or>
     (False \<and> (\<forall>(src_file, lines) \<in> set ([] :: file_line_info). \<not> path_exists (example_env []) src_file))"
    by simp
  show ?thesis
    using h save_coverage_info_no_records [OF h empty, of empty_world]
      save_coverage_info_no_records [OF h none, of empty_world]
    by simp
qed

subsection \<open>The lines of the report\<close>

lemma split_on_not_Nil: "split_on sep s \<noteq> []"
  by (induction s) (auto split: list.splits)
lemma split_on_line:
  "sep \<notin> set l \<Longrightarrow> split_on sep (l @ sep # rest) = l # split_on sep rest"
  by (induction l) (auto split: list.splits)

lemma digit_char_in: "n < 10 \<Longrightarrow> digit_char n \<in> set ''0123456789''"
  unfolding digit_char_def by (rule nth_mem) simp

lemma digit_char_not_newline: "n < 10 \<Longrightarrow> digit_char n \<noteq> CHR ''\<newline>''"
proof
  assume "n < 10" and "digit_char n = CHR ''\<newline>''"
  then have "CHR ''\<newline>'' \<in> set ''0123456789''"
    using digit_char_in [of n] by simp
  then show False by simp
qed

lemma show_nat_small: "n < 10 \<Longrightarrow> show_nat n = [digit_char n]"
  by (subst show_nat.simps) (simp only: if_True)

lemma show_nat_large: "\<not> n < 10 \<Longrightarrow> show_nat n = show_nat (n div 10) @ [digit_char (n mod 10)]"
  by (subst show_nat.simps) (simp only: if_False)

lemma show_nat_no_newline: "CHR ''\<newline>'' \<notin> set (show_nat n)"
proof (induction n rule: show_nat.induct)
  case (1 n)
  show ?case
  proof (cases "n < 10")
    case True
    then show ?thesis
      using digit_char_not_newline [OF True] by (simp only: show_nat_small) simp
  next
    case False
    have "n mod 10 < 10" by simp
    then have "digit_char (n mod 10) \<noteq> CHR ''\<newline>''" by (rule digit_char_not_newline)
    moreover have "CHR ''\<newline>'' \<notin> set (show_nat (n div 10))"
      using 1 False by blast
    ultimately show ?thesis
      by (simp only: show_nat_large [OF False] set_append) simp
  qed
qed

lemma split_on_unlines:
  "\<forall>l \<in> set ls. CHR ''\<newline>'' \<notin> set l \<Longrightarrow>
   split_on CHR ''\<newline>'' (unlines ls) = ls @ [[]]"
proof (induction ls)
  case Nil
  then show ?case by (simp add: unlines_def)
next
  case (Cons l ls)
  then have "split_on CHR ''\<newline>'' (l @ CHR ''\<newline>'' # unlines ls) = l # split_on CHR ''\<newline>'' (unlines ls)"
    by (simp add: split_on_line)
  with Cons show ?case by (simp add: unlines_def)
qed

lemma show_int_no_newline: "CHR ''\<newline>'' \<notin> set (show_int i)"
  using show_nat_no_newline [of "nat i"] show_nat_no_newline [of "nat (- i)"]
  by (simp add: show_int_def)

lemma da_line_no_newline: "CHR ''\<newline>'' \<notin> set (da_line item)"
  by (cases item) (simp add: da_line_def show_int_no_newline)

lemma record_lines_no_newline:
  assumes "CHR ''\<newline>'' \<notin> set src_file"
  shows "\<forall>l \<in> set (record_lines (src_file, lines)). CHR ''\<newline>'' \<notin> set l"
  using assms by (auto simp: record_lines_def show_int_no_newline da_line_no_newline)

lemma da_line_not_TN: "da_line item \<noteq> ''TN:''"
  by (cases item) (simp add: da_line_def)

lemma da_line_not_end: "da_line item \<noteq> ''end_of_record''"
  by (cases item) (simp add: da_line_def)

lemma record_lines_not_TN: "''TN:'' \<notin> set (record_lines fl)"
proof -
  obtain src_file lines where fl: "fl = (src_file, lines)" by (cases fl)
  have "''TN:'' \<notin> set (map da_line lines)"
    using da_line_not_TN by (metis (no_types) imageE list.set_map)
  then show ?thesis by (simp add: fl record_lines_def)
qed

lemma record_lines_one_end:
  "length (filter (\<lambda>x. x = ''end_of_record'') (record_lines fl)) = 1"
proof -
  obtain src_file lines where fl: "fl = (src_file, lines)" by (cases fl)
  have "\<forall>x \<in> set (map da_line lines). x \<noteq> ''end_of_record''"
    using da_line_not_end by (metis (no_types) imageE list.set_map)
  then have "filter (\<lambda>x. x = ''end_of_record'') (map da_line lines) = []"
    by (simp only: filter_empty_conv)
  then show ?thesis by (simp add: fl record_lines_def)
qed

lemma count_concat_records_TN:
  "filter (\<lambda>x. x = ''TN:'') (concat (map record_lines fls)) = []"
  using record_lines_not_TN by (auto simp: filter_empty_conv)

lemma count_concat_records_end:
  "length (filter (\<lambda>x. x = ''end_of_record'') (concat (map record_lines fls))) = length fls"
  by (induction fls) (simp_all add: record_lines_one_end)

lemma emitted_no_newline:
  assumes "\<forall>(src_file, lines) \<in> set fli. CHR ''\<newline>'' \<notin> set src_file"
  shows "\<forall>l \<in> set (concat (map record_lines (emitted e ign fli))). CHR ''\<newline>'' \<notin> set l"
proof
  fix l assume "l \<in> set (concat (map record_lines (emitted e ign fli)))"
  then obtain fl where "fl \<in> set (emitted e ign fli)" and l: "l \<in> set (record_lines fl)" by auto
  then have "fl \<in> set fli" by (simp add: emitted_def)
  obtain src_file lines where fl: "fl = (src_file, lines)" by (cases fl)
  with \<open>fl \<in> set fli\<close> assms have "CHR ''\<newline>'' \<notin> set src_file" by fastforce
  from record_lines_no_newline [OF this, of lines] l show "CHR ''\<newline>'' \<notin> set l"
    by (simp add: fl)
qed

lemma report_lines:
  assumes "\<forall>(src_file, lines) \<in> set fli. CHR ''\<newline>'' \<notin> set src_file"
  shows "split_on CHR ''\<newline>'' (unlines (''TN:'' # concat (map record_lines (emitted e ign fli))))
           = ''TN:'' # concat (map record_lines (emitted e ign fli)) @ [[]]"
proof -
  have "\<forall>l \<in> set (''TN:'' # concat (map record_lines (emitted e ign fli))). CHR ''\<newline>'' \<notin> set l"
    using emitted_no_newline [OF assms, of e ign] by simp
  from split_on_unlines [OF this] show ?thesis by simp
qed

text \<open>
  C9 (as the code has it): the \<open>TN:\<close> line is written once, before the loop over the
  source files, and not once per record. For the dictionary with the two source files
  \<open>/a.c\<close> and \<open>/b.c\<close>, both emitted, the report has two records and one \<open>TN:\<close>
  line, so the number of \<open>TN:\<close> lines is not the number of emitted records.
\<close>

theorem report_TN_per_record_counterexample:
  "map_option (count_lines ''TN:'')
     (written (snd (save_coverage_info (example_env []) ''/out/m.info''
        [(''/a.c'', [(1, 1)]), (''/b.c'', [(2, 1)])] False empty_world)) ''/out/m.info'')
     \<noteq> Some (length (emitted (example_env []) False [(''/a.c'', [(1, 1)]), (''/b.c'', [(2, 1)])]))
   \<and> map_option (count_lines ''TN:'')
     (written (snd (save_coverage_info (example_env []) ''/out/m.info''
        [(''/a.c'', [(1, 1)]), (''/b.c'', [(2, 1)])] False empty_world)) ''/out/m.info'')
     = Some 1
   \<and> length (emitted (example_env []) False [(''/a.c'', [(1, 1)]), (''/b.c'', [(2, 1)])]) = 2"
  by code_simp

text \<open>
  C9, amended: when the output file can be opened and no source path contains a
  newline, the report starts with the \<open>TN:\<close> line, has exactly one \<open>TN:\<close> line
  whatever the number of records (none after the last record, and none between
  records), and has one \<open>end_of_record\<close> line, that is one record, per emitted source
  file.
\<close>

theorem report_has_one_TN_line:
  assumes "can_open e lcov_path"
    and "\<forall>(src_file, lines) \<in> set file_line_info. CHR ''\<newline>'' \<notin> set src_file"
  shows "map_option (count_lines ''TN:'')
           (written (snd (save_coverage_info e lcov_path file_line_info ignore_missing_files w)) lcov_path)
           = Some 1
         \<and> map_option (count_lines ''end_of_record'')
           (written (snd (save_coverage_info e lcov_path file_line_info ignore_missing_files w)) lcov_path)
           = Some (length (emitted e ignore_missing_files file_line_info))
         \<and> map_option (\<lambda>t. take 1 (split_on CHR ''\<newline>'' t))
           (written (snd (save_coverage_info e lcov_path file_line_info ignore_missing_files w)) lcov_path)
           = Some [''TN:'']"
proof -
  let ?recs = "concat (map record_lines (emitted e ignore_missing_files file_line_info))"
  have w: "written (snd (save_coverage_info e lcov_path file_line_info ignore_missing_files w)) lcov_path
             = Some (unlines (''TN:'' # ?recs))"
    using assms(1) by (simp add: save_coverage_info_eq)
  have ls: "split_on CHR ''\<newline>'' (unlines (''TN:'' # ?recs)) = ''TN:'' # ?recs @ [[]]"
    by (rule report_lines [OF assms(2)])
  have "count_lines ''TN:'' (unlines (''TN:'' # ?recs)) = 1"
    unfolding count_lines_def ls by (simp add: count_concat_records_TN)
  moreover have "count_lines ''end_of_record'' (unlines (''TN:'' # ?recs))
                   = length (emitted e ignore_missing_files file_line_info)"
    unfolding count_lines_def ls by (simp add: count_concat_records_end)
  moreover have "take 1 (split_on CHR ''\<newline>'' (unlines (''TN:'' # ?recs))) = [''TN:'']"
    unfolding ls by simp
  ultimately show ?thesis unfolding w by simp
qed

theorem report_has_one_TN_line_witness:
  "can_open (example_env []) ''/out/m.info''
   \<and> CHR ''\<newline>'' \<notin> set ''/a.c'' \<and> CHR ''\<newline>'' \<notin> set ''/b.c''
   \<and> map_option (count_lines ''TN:'')
        (written (snd (save_coverage_info (example_env []) ''/out/m.info''
           [(''/a.c'', [(1, 1)]), (''/b.c'', [(2, 1)])] False empty_world)) ''/out/m.info'')
        = Some 1
   \<and> map_option (count_lines ''end_of_record'')
        (written (snd (save_coverage_info (example_env []) ''/out/m.info''
           [(''/a.c'', [(1, 1)]), (''/b.c'', [(2, 1)])] False empty_world)) ''/out/m.info'')
        = Some 2"
proof -
  have h: "can_open (example_env []) ''/out/m.info''"
    by (simp add: example_env_def)
  have nl: "\<forall>(src_file, lines) \<in> set [(''/a.c'', [(1::int, 1::int)]), (''/b.c'', [(2, 1)])]. CHR ''\<newline>'' \<notin> set src_file"
    by simp
  have two: "length (emitted (example_env []) False [(''/a.c'', [(1::int, 1::int)]), (''/b.c'', [(2, 1)])]) = 2"
    by (simp add: emitted_def)
  show ?thesis
    using h nl two report_has_one_TN_line [OF h nl, of False empty_world]
    by simp
qed

subsection \<open>The output folders\<close>

lemma collect_outputs_eq:
  "to_int e index = Some n \<Longrightarrow>
   collect_outputs e dir index rounds ret =
     Inr (ret @ filter (path_exists e)
            (map (\<lambda>i. path_join dir (''s2e-out-'' @ show_int (n - i))) rounds))"
  by (induction rounds arbitrary: ret) (simp_all add: Let_def)

lemma countdown: "- 1 \<le> m \<Longrightarrow> map (\<lambda>i. n - i) [0..m] = rev [n - m..n]" for n m :: int
proof (induction m rule: int_ge_induct)
  case base
  show ?case by simp
next
  case (step m)
  then have "[0..m + 1] = [0..m] @ [m + 1]"
    by (simp add: upto_rec2)
  moreover have "[n - (m + 1)..n] = (n - (m + 1)) # [n - m..n]"
    using step by (simp add: upto_rec1)
  ultimately show ?case using step by simp
qed

lemma countdown_empty: "m < - 1 \<Longrightarrow> map (\<lambda>i. n - i) [0..m] = rev [n - m..n]" for n m :: int
  by simp

lemma countdown_all: "map (\<lambda>i. n - i) [0..m] = rev [n - m..n]" for n m :: int
  using countdown [of m n] countdown_empty [of m n] by linarith

text \<open>
  C5: in the last-N mode (\<open>aggregate_outputs = N\<close>, not zero), when the name of the
  folder that \<open>s2e-last\<close> resolves to splits at the dashes into three parts, the last
  of which is the number \<open>index\<close>, the result is the list of the paths
  \<open>s2e-out-k\<close> beside that folder that exist, for \<open>k\<close> going down from \<open>index\<close> to
  \<open>index - N + 1\<close>, in that order.
\<close>

theorem get_output_folders_last_n:
  assumes "aggregate_outputs opts = N" and "N \<noteq> 0"
    and "split_on CHR ''-'' (basename (realpath e (project_path e ''s2e-last''))) = [a, b, index]"
    and "to_int e index = Some idx"
  shows "get_output_folders e opts =
           Inr (filter (path_exists e)
                  (map (\<lambda>k. path_join (dirname (realpath e (project_path e ''s2e-last'')))
                                (''s2e-out-'' @ show_int k))
                     (rev [idx - N + 1..idx])))"
proof -
  have "map (\<lambda>i. path_join (dirname (realpath e (project_path e ''s2e-last'')))
                    (''s2e-out-'' @ show_int (idx - i))) [0..N - 1]
        = map (\<lambda>k. path_join (dirname (realpath e (project_path e ''s2e-last'')))
                    (''s2e-out-'' @ show_int k)) (map (\<lambda>i. idx - i) [0..N - 1])"
    by (simp add: comp_def)
  also have "map (\<lambda>i. idx - i) [0..N - 1] = rev [idx - N + 1..idx]"
    using countdown_all [of idx "N - 1"] by (simp add: algebra_simps)
  finally show ?thesis
    using assms by (simp add: get_output_folders_def Let_def collect_outputs_eq)
qed

theorem get_output_folders_last_n_witness:
  "aggregate_outputs \<lparr>html = False, lcov_out_dir = None, aggregate_outputs = 3,
      s2e_out_dir = [], include_covered_files_only = False\<rparr> = 3
   \<and> (3 :: int) \<noteq> 0
   \<and> split_on CHR ''-'' (basename (realpath
         (example_env [''/proj/s2e-out-10'', ''/proj/s2e-out-9'', ''/proj/s2e-out-7''])
         (project_path (example_env [''/proj/s2e-out-10'', ''/proj/s2e-out-9'', ''/proj/s2e-out-7''])
            ''s2e-last''))) = [''s2e'', ''out'', ''10'']
   \<and> to_int (example_env [''/proj/s2e-out-10'', ''/proj/s2e-out-9'', ''/proj/s2e-out-7'']) ''10'' = Some 10
   \<and> get_output_folders (example_env [''/proj/s2e-out-10'', ''/proj/s2e-out-9'', ''/proj/s2e-out-7''])
        \<lparr>html = False, lcov_out_dir = None, aggregate_outputs = 3,
           s2e_out_dir = [], include_covered_files_only = False\<rparr>
       = Inr [''/proj/s2e-out-10'', ''/proj/s2e-out-9'']"
proof -
  let ?e = "example_env [''/proj/s2e-out-10'', ''/proj/s2e-out-9'', ''/proj/s2e-out-7'']"
  let ?opts = "\<lparr>html = False, lcov_out_dir = None, aggregate_outputs = 3,
      s2e_out_dir = [], include_covered_files_only = False\<rparr>"
  have n: "aggregate_outputs ?opts = 3" by simp
  have nz: "(3 :: int) \<noteq> 0" by simp
  have parts: "split_on CHR ''-'' (basename (realpath ?e (project_path ?e ''s2e-last'')))
                 = [''s2e'', ''out'', ''10'']"
    by code_simp
  have num: "to_int ?e ''10'' = Some 10" by (simp add: example_env_def)
  have res: "filter (path_exists ?e)
                  (map (\<lambda>k. path_join (dirname (realpath ?e (project_path ?e ''s2e-last'')))
                                (''s2e-out-'' @ show_int k))
                     (rev [10 - 3 + 1..10]))
             = [''/proj/s2e-out-10'', ''/proj/s2e-out-9'']"
    by code_simp
  show ?thesis
    using n nz parts num get_output_folders_last_n [OF n nz parts num]
    unfolding res by simp
qed

text \<open>
  C8: in the last-N mode, when the name of the folder that \<open>s2e-last\<close> resolves to
  does not split at the dashes into exactly three parts, \<^verbatim>\<open>_get_output_folders\<close> fails
  with the ValueError of the unpacking (the configuration error of the specification),
  and \<^verbatim>\<open>handle\<close> ends with that error before it does anything with an output folder:
  nothing is logged, written or rendered.
\<close>

theorem get_output_folders_bad_name:
  assumes "aggregate_outputs opts \<noteq> 0"
    and "length (split_on CHR ''-'' (basename (realpath e (project_path e ''s2e-last'')))) \<noteq> 3"
  shows "get_output_folders e opts = Inl ValueError \<and> handle e opts w = (Some ValueError, w)"
proof -
  have "get_output_folders e opts = Inl ValueError"
    using assms by (auto simp: get_output_folders_def Let_def split: list.splits)
  then show ?thesis by (simp add: handle_def)
qed

theorem get_output_folders_bad_name_witness:
  "aggregate_outputs \<lparr>html = False, lcov_out_dir = None, aggregate_outputs = 2,
      s2e_out_dir = [], include_covered_files_only = False\<rparr> \<noteq> 0
   \<and> length (split_on CHR ''-'' (basename (realpath ((example_env [])\<lparr>realpath := (\<lambda>p. p)\<rparr>)
        (project_path ((example_env [])\<lparr>realpath := (\<lambda>p. p)\<rparr>) ''s2e-last'')))) \<noteq> 3
   \<and> get_output_folders ((example_env [])\<lparr>realpath := (\<lambda>p. p)\<rparr>)
        \<lparr>html = False, lcov_out_dir = None, aggregate_outputs = 2,
           s2e_out_dir = [], include_covered_files_only = False\<rparr> = Inl ValueError
   \<and> handle ((example_env [])\<lparr>realpath := (\<lambda>p. p)\<rparr>)
        \<lparr>html = False, lcov_out_dir = None, aggregate_outputs = 2,
           s2e_out_dir = [], include_covered_files_only = False\<rparr> empty_world
       = (Some ValueError, empty_world)"
proof -
  let ?e = "(example_env [])\<lparr>realpath := (\<lambda>p. p)\<rparr>"
  let ?opts = "\<lparr>html = False, lcov_out_dir = None, aggregate_outputs = 2,
      s2e_out_dir = [], include_covered_files_only = False\<rparr>"
  have n: "aggregate_outputs ?opts \<noteq> 0" by simp
  have "split_on CHR ''-'' (basename (realpath ?e (project_path ?e ''s2e-last''))) = [''s2e'', ''last'']"
    by code_simp
  then have parts: "length (split_on CHR ''-'' (basename (realpath ?e (project_path ?e ''s2e-last'')))) \<noteq> 3"
    by simp
  show ?thesis
    using n parts get_output_folders_bad_name [OF n parts, of empty_world] by simp
qed

subsection \<open>The loop over the modules\<close>

lemma save_coverage_info_logged_mono:
  "set (logged w) \<subseteq> set (logged (snd (save_coverage_info e p fli ign w)))"
  by (cases "can_open e p") (auto simp: save_coverage_info_eq save_coverage_info_fail log_msg_def)

lemma save_coverage_info_written_mono:
  "written w q \<noteq> None \<Longrightarrow> written (snd (save_coverage_info e p fli ign w)) q \<noteq> None"
  by (cases "can_open e p") (auto simp: save_coverage_info_eq save_coverage_info_fail log_msg_def)

lemma module_step_fail:
  "get_coverage e module_path addr_counts cov = Inl err \<Longrightarrow>
   module_step e cov do_gen_html out_dir module_path addr_counts w = log_msg (LogError err) w"
  by (simp add: module_step_def module_report_def)

lemma module_step_io:
  "get_coverage e module_path addr_counts cov = Inr fli \<Longrightarrow>
   \<not> can_open e (path_join out_dir (basename module_path @ ''.info'')) \<Longrightarrow>
   module_step e cov do_gen_html out_dir module_path addr_counts w =
     log_msg (LogError IOError)
       (log_msg (LogInfo (''Writing line coverage to '' @ path_join out_dir (basename module_path @ ''.info''))) w)"
  by (simp add: module_step_def module_report_def Let_def save_coverage_info_fail)

lemma module_step_saved:
  assumes "get_coverage e module_path addr_counts cov = Inr fli"
    and "can_open e (path_join out_dir (basename module_path @ ''.info''))"
  shows "\<exists>w1 rest.
           snd (save_coverage_info e (path_join out_dir (basename module_path @ ''.info'')) fli do_gen_html w) = w1
           \<and> written (module_step e cov do_gen_html out_dir module_path addr_counts w) = written w1
           \<and> logged (module_step e cov do_gen_html out_dir module_path addr_counts w)
               = logged w1 @ LogSuccess (''Line coverage saved to ''
                    @ path_join out_dir (basename module_path @ ''.info'')) # rest
           \<and> (\<forall>msg. do_gen_html \<longrightarrow>
                 genhtml e (path_join out_dir (basename module_path @ ''.info''))
                   (path_join out_dir (basename module_path @ ''_lcov'')) = Some msg \<longrightarrow>
                 rest = [LogError (CommandError msg)])"
  using assms
  by (cases "genhtml e (path_join out_dir (basename module_path @ ''.info''))
                   (path_join out_dir (basename module_path @ ''_lcov''))")
     (simp_all add: module_step_def module_report_def Let_def save_coverage_info_eq
        gen_html_def log_msg_def)

lemma module_step_logged_mono:
  "set (logged w) \<subseteq> set (logged (module_step e cov do_gen_html out_dir module_path addr_counts w))"
proof (cases "get_coverage e module_path addr_counts cov")
  case (Inl err)
  then show ?thesis by (auto simp: module_step_fail log_msg_def)
next
  case (Inr fli)
  show ?thesis
  proof (cases "can_open e (path_join out_dir (basename module_path @ ''.info''))")
    case True
    from module_step_saved [OF Inr True, of do_gen_html w]
    show ?thesis
      using save_coverage_info_logged_mono
        [of w e "path_join out_dir (basename module_path @ ''.info'')" fli do_gen_html]
      by auto
  next
    case False
    then show ?thesis by (auto simp: module_step_io [OF Inr] log_msg_def)
  qed
qed

lemma module_step_written_mono:
  assumes "written w q \<noteq> None"
  shows "written (module_step e cov do_gen_html out_dir module_path addr_counts w) q \<noteq> None"
proof (cases "get_coverage e module_path addr_counts cov")
  case (Inl err)
  then show ?thesis using assms by (simp add: module_step_fail log_msg_def)
next
  case (Inr fli)
  show ?thesis
  proof (cases "can_open e (path_join out_dir (basename module_path @ ''.info''))")
    case True
    from module_step_saved [OF Inr True, of do_gen_html w]
    show ?thesis
      using save_coverage_info_written_mono
        [OF assms, of e "path_join out_dir (basename module_path @ ''.info'')" fli do_gen_html]
      by auto
  next
    case False
    then show ?thesis using assms by (simp add: module_step_io [OF Inr] log_msg_def)
  qed
qed

lemma process_modules_logged_mono:
  "set (logged w) \<subseteq> set (logged (process_modules e cov do_gen_html out_dir modules w))"
proof (induction modules arbitrary: w)
  case Nil
  then show ?case by simp
next
  case (Cons m modules)
  obtain module_path addr_counts where m: "m = (module_path, addr_counts)" by (cases m)
  show ?case
    using module_step_logged_mono [of w e cov do_gen_html out_dir module_path addr_counts]
      Cons [of "module_step e cov do_gen_html out_dir module_path addr_counts w"]
    by (simp add: m)
qed

lemma process_modules_written_mono:
  "written w q \<noteq> None \<Longrightarrow>
   written (process_modules e cov do_gen_html out_dir modules w) q \<noteq> None"
proof (induction modules arbitrary: w)
  case Nil
  then show ?case by simp
next
  case (Cons m modules)
  obtain module_path addr_counts where m: "m = (module_path, addr_counts)" by (cases m)
  show ?case
    using module_step_written_mono [OF Cons.prems, of e cov do_gen_html out_dir module_path addr_counts]
      Cons.IH [of "module_step e cov do_gen_html out_dir module_path addr_counts w"]
    by (simp add: m)
qed


lemma module_step_outcome:
  "(\<forall>err. get_coverage e module_path addr_counts cov = Inl err \<longrightarrow>
      LogError err \<in> set (logged (module_step e cov do_gen_html out_dir module_path addr_counts w)))
   \<and> (\<forall>fli. get_coverage e module_path addr_counts cov = Inr fli \<longrightarrow>
         can_open e (path_join out_dir (basename module_path @ ''.info'')) \<longrightarrow>
         written (module_step e cov do_gen_html out_dir module_path addr_counts w)
           (path_join out_dir (basename module_path @ ''.info'')) \<noteq> None
         \<and> LogSuccess (''Line coverage saved to '' @ path_join out_dir (basename module_path @ ''.info''))
             \<in> set (logged (module_step e cov do_gen_html out_dir module_path addr_counts w)))
   \<and> (\<forall>fli. get_coverage e module_path addr_counts cov = Inr fli \<longrightarrow>
         \<not> can_open e (path_join out_dir (basename module_path @ ''.info'')) \<longrightarrow>
         LogError IOError
           \<in> set (logged (module_step e cov do_gen_html out_dir module_path addr_counts w)))
   \<and> (\<forall>fli msg. get_coverage e module_path addr_counts cov = Inr fli \<longrightarrow>
         can_open e (path_join out_dir (basename module_path @ ''.info'')) \<longrightarrow>
         do_gen_html \<longrightarrow>
         genhtml e (path_join out_dir (basename module_path @ ''.info''))
           (path_join out_dir (basename module_path @ ''_lcov'')) = Some msg \<longrightarrow>
         LogError (CommandError msg)
           \<in> set (logged (module_step e cov do_gen_html out_dir module_path addr_counts w)))"
proof (intro conjI allI impI)
  fix err assume "get_coverage e module_path addr_counts cov = Inl err"
  then show "LogError err \<in> set (logged (module_step e cov do_gen_html out_dir module_path addr_counts w))"
    by (simp add: module_step_fail log_msg_def)
next
  fix fli
  assume g: "get_coverage e module_path addr_counts cov = Inr fli"
    and o: "can_open e (path_join out_dir (basename module_path @ ''.info''))"
  from module_step_saved [OF g o, of do_gen_html w]
  show "written (module_step e cov do_gen_html out_dir module_path addr_counts w)
           (path_join out_dir (basename module_path @ ''.info'')) \<noteq> None"
    using o by (auto simp: save_coverage_info_eq)
  from module_step_saved [OF g o, of do_gen_html w]
  show "LogSuccess (''Line coverage saved to '' @ path_join out_dir (basename module_path @ ''.info''))
             \<in> set (logged (module_step e cov do_gen_html out_dir module_path addr_counts w))"
    by auto
next
  fix fli
  assume "get_coverage e module_path addr_counts cov = Inr fli"
    and "\<not> can_open e (path_join out_dir (basename module_path @ ''.info''))"
  then show "LogError IOError
           \<in> set (logged (module_step e cov do_gen_html out_dir module_path addr_counts w))"
    by (simp add: module_step_io log_msg_def)
next
  fix fli msg
  assume g: "get_coverage e module_path addr_counts cov = Inr fli"
    and o: "can_open e (path_join out_dir (basename module_path @ ''.info''))"
    and h: do_gen_html
    and r: "genhtml e (path_join out_dir (basename module_path @ ''.info''))
           (path_join out_dir (basename module_path @ ''_lcov'')) = Some msg"
  from module_step_saved [OF g o, of do_gen_html w] h r
  show "LogError (CommandError msg)
           \<in> set (logged (module_step e cov do_gen_html out_dir module_path addr_counts w))"
    by auto
qed


lemma process_modules_member:
  assumes "(module_path, addr_counts) \<in> set modules"
  shows "\<exists>w0. set (logged (module_step e cov do_gen_html out_dir module_path addr_counts w0))
                 \<subseteq> set (logged (process_modules e cov do_gen_html out_dir modules w))
              \<and> (\<forall>q. written (module_step e cov do_gen_html out_dir module_path addr_counts w0) q \<noteq> None
                    \<longrightarrow> written (process_modules e cov do_gen_html out_dir modules w) q \<noteq> None)"
  using assms
proof (induction modules arbitrary: w)
  case Nil
  then show ?case by simp
next
  case (Cons m modules)
  obtain mp ac where m: "m = (mp, ac)" by (cases m)
  show ?case
  proof (cases "m = (module_path, addr_counts)")
    case True
    then have eq: "process_modules e cov do_gen_html out_dir (m # modules) w
        = process_modules e cov do_gen_html out_dir modules
            (module_step e cov do_gen_html out_dir module_path addr_counts w)"
      by simp
    show ?thesis
      unfolding eq
      using process_modules_logged_mono process_modules_written_mono by blast
  next
    case False
    with Cons.prems have "(module_path, addr_counts) \<in> set modules" by simp
    from Cons.IH [OF this, of "module_step e cov do_gen_html out_dir mp ac w"]
    show ?thesis by (simp add: m)
  qed
qed

text \<open>
  C6: whatever the modules of the aggregated coverage are and wherever a module
  stands among them, the loop deals with it, and an exception in one round is logged
  and ends only that round. For every module: when the symbol manager raises, its
  error is logged; when it returns and the \<open>.info\<close> file can be opened, the file is
  written and the success is logged, whatever happened to the modules before it; when
  the file cannot be opened or \<^verbatim>\<open>genhtml\<close> fails, that error is logged.
\<close>

theorem process_modules_isolates_failures:
  assumes "(module_path, addr_counts) \<in> set modules"
  shows
  "(\<forall>err. get_coverage e module_path addr_counts cov = Inl err \<longrightarrow>
      LogError err \<in> set (logged (process_modules e cov do_gen_html out_dir modules w)))
   \<and> (\<forall>fli. get_coverage e module_path addr_counts cov = Inr fli \<longrightarrow>
         can_open e (path_join out_dir (basename module_path @ ''.info'')) \<longrightarrow>
         written (process_modules e cov do_gen_html out_dir modules w)
           (path_join out_dir (basename module_path @ ''.info'')) \<noteq> None
         \<and> LogSuccess (''Line coverage saved to '' @ path_join out_dir (basename module_path @ ''.info''))
             \<in> set (logged (process_modules e cov do_gen_html out_dir modules w)))
   \<and> (\<forall>fli. get_coverage e module_path addr_counts cov = Inr fli \<longrightarrow>
         \<not> can_open e (path_join out_dir (basename module_path @ ''.info'')) \<longrightarrow>
         LogError IOError
           \<in> set (logged (process_modules e cov do_gen_html out_dir modules w)))
   \<and> (\<forall>fli msg. get_coverage e module_path addr_counts cov = Inr fli \<longrightarrow>
         can_open e (path_join out_dir (basename module_path @ ''.info'')) \<longrightarrow>
         do_gen_html \<longrightarrow>
         genhtml e (path_join out_dir (basename module_path @ ''.info''))
           (path_join out_dir (basename module_path @ ''_lcov'')) = Some msg \<longrightarrow>
         LogError (CommandError msg)
           \<in> set (logged (process_modules e cov do_gen_html out_dir modules w)))"
proof -
  from process_modules_member [OF assms, of e cov do_gen_html out_dir w]
  obtain w0 where
    lg: "set (logged (module_step e cov do_gen_html out_dir module_path addr_counts w0))
           \<subseteq> set (logged (process_modules e cov do_gen_html out_dir modules w))"
    and wr: "\<And>q. written (module_step e cov do_gen_html out_dir module_path addr_counts w0) q \<noteq> None
           \<Longrightarrow> written (process_modules e cov do_gen_html out_dir modules w) q \<noteq> None"
    by blast
  note step = module_step_outcome [of e module_path addr_counts cov do_gen_html out_dir w0]
  show ?thesis
  proof (intro conjI allI impI)
    fix err assume "get_coverage e module_path addr_counts cov = Inl err"
    with step lg
    show "LogError err \<in> set (logged (process_modules e cov do_gen_html out_dir modules w))"
      by blast
  next
    fix fli
    assume g: "get_coverage e module_path addr_counts cov = Inr fli"
      and o: "can_open e (path_join out_dir (basename module_path @ ''.info''))"
    from step g o have
      "written (module_step e cov do_gen_html out_dir module_path addr_counts w0)
           (path_join out_dir (basename module_path @ ''.info'')) \<noteq> None"
      by blast
    then show "written (process_modules e cov do_gen_html out_dir modules w)
           (path_join out_dir (basename module_path @ ''.info'')) \<noteq> None"
      by (rule wr)
    from step g o lg
    show "LogSuccess (''Line coverage saved to '' @ path_join out_dir (basename module_path @ ''.info''))
             \<in> set (logged (process_modules e cov do_gen_html out_dir modules w))"
      by blast
  next
    fix fli
    assume "get_coverage e module_path addr_counts cov = Inr fli"
      and "\<not> can_open e (path_join out_dir (basename module_path @ ''.info''))"
    with step lg
    show "LogError IOError \<in> set (logged (process_modules e cov do_gen_html out_dir modules w))"
      by blast
  next
    fix fli msg
    assume "get_coverage e module_path addr_counts cov = Inr fli"
      and "can_open e (path_join out_dir (basename module_path @ ''.info''))"
      and do_gen_html
      and "genhtml e (path_join out_dir (basename module_path @ ''.info''))
           (path_join out_dir (basename module_path @ ''_lcov'')) = Some msg"
    with step lg
    show "LogError (CommandError msg)
           \<in> set (logged (process_modules e cov do_gen_html out_dir modules w))"
      by blast
  qed
qed

theorem process_modules_isolates_failures_witness:
  "(''/bin/good'', [(2 :: int, 1 :: int)]) \<in> set [(''/bin/bad'', [(1, 1)]), (''/bin/good'', [(2, 1)])]
   \<and> get_coverage (example_env []) ''/bin/bad'' [(1, 1)] False
        = Inl (ResolverError ''no debug information'')
   \<and> get_coverage (example_env []) ''/bin/good'' [(2, 1)] False
        = Inr [(''/a.c'', [(10, 2), (11, 0), (12, 1)])]
   \<and> can_open (example_env []) (path_join ''/out'' (basename ''/bin/good'' @ ''.info''))
   \<and> path_join ''/out'' (basename ''/bin/good'' @ ''.info'') = ''/out/good.info''
   \<and> written (process_modules (example_env []) False False ''/out''
         [(''/bin/bad'', [(1, 1)]), (''/bin/good'', [(2, 1)])] empty_world) ''/out/good.info'' \<noteq> None
   \<and> LogSuccess ''Line coverage saved to /out/good.info''
        \<in> set (logged (process_modules (example_env []) False False ''/out''
             [(''/bin/bad'', [(1, 1)]), (''/bin/good'', [(2, 1)])] empty_world))"
proof -
  let ?ms = "[(''/bin/bad'', [(1::int, 1::int)]), (''/bin/good'', [(2, 1)])]"
  have mem: "(''/bin/good'', [(2, 1)]) \<in> set ?ms" by simp
  have bad: "get_coverage (example_env []) ''/bin/bad'' [(1, 1)] False
        = Inl (ResolverError ''no debug information'')"
    by (simp add: example_env_def)
  have good: "get_coverage (example_env []) ''/bin/good'' [(2, 1)] False
        = Inr [(''/a.c'', [(10, 2), (11, 0), (12, 1)])]"
    by (simp add: example_env_def)
  have opn: "can_open (example_env []) (path_join ''/out'' (basename ''/bin/good'' @ ''.info''))"
    by (simp add: example_env_def)
  have path: "path_join ''/out'' (basename ''/bin/good'' @ ''.info'') = ''/out/good.info''"
    by code_simp
  note t = process_modules_isolates_failures [OF mem, of "example_env []" False False "''/out''" empty_world]
  from t good opn have
    "written (process_modules (example_env []) False False ''/out'' ?ms empty_world)
       (path_join ''/out'' (basename ''/bin/good'' @ ''.info'')) \<noteq> None
     \<and> LogSuccess (''Line coverage saved to '' @ path_join ''/out'' (basename ''/bin/good'' @ ''.info''))
        \<in> set (logged (process_modules (example_env []) False False ''/out'' ?ms empty_world))"
    by blast
  then have res: "written (process_modules (example_env []) False False ''/out'' ?ms empty_world)
       ''/out/good.info'' \<noteq> None
     \<and> LogSuccess ''Line coverage saved to /out/good.info''
        \<in> set (logged (process_modules (example_env []) False False ''/out'' ?ms empty_world))"
    unfolding path by simp
  from mem bad good opn path res show ?thesis by simp
qed

subsection \<open>The merge into another object\<close>

text \<open>
  When the module has an entry already, which is another object than the incoming
  dictionary, the merge leaves the incoming dictionary as it is and adds its counts to
  the entry, address by address.
\<close>

lemma map_of_drop_nth:
  assumes "distinct (map fst d)" and "i < length d"
  shows "map_of (drop i d) a =
           (if a = fst (d ! i) then Some (snd (d ! i)) else map_of (drop (Suc i) d) a)"
proof -
  have "drop i d = d ! i # drop (Suc i) d"
    using assms(2) by (simp add: Cons_nth_drop_Suc)
  then show ?thesis by (cases "d ! i") auto
qed

lemma merge_items_other:
  assumes "src \<noteq> cov" and "distinct (map fst (h src))"
  shows "merge_items src cov i h src = h src
         \<and> map_of (merge_items src cov i h cov) a =
             (case map_of (drop i (h src)) a of
                None \<Rightarrow> map_of (h cov) a
              | Some c \<Rightarrow> Some ((case map_of (h cov) a of None \<Rightarrow> 0 | Some old \<Rightarrow> old) + c))"
  using assms(2)
proof (induction "length (h src) - i" arbitrary: i h)
  case 0
  then have "\<not> i < length (h src)" by simp
  then show ?case using merge_items.simps [of src cov i h] by simp
next
  case (Suc n)
  then have lt: "i < length (h src)" by simp
  obtain addr cnt where item: "h src ! i = (addr, cnt)" by (cases "h src ! i")
  define d' where "d' = (case map_of (h cov) addr of
                            Some old \<Rightarrow> dict_set (h cov) addr (old + cnt)
                          | None \<Rightarrow> dict_set (h cov) addr cnt)"
  define h' where "h' = h(cov := d')"
  have step: "merge_items src cov i h = merge_items src cov (Suc i) h'"
    using merge_items.simps [of src cov i h] lt
    by (simp only: item if_True prod.case h'_def d'_def)
  have src': "h' src = h src" using assms(1) by (simp add: h'_def)
  have cov': "h' cov = d'" by (simp add: h'_def)
  have d'_at: "map_of d' a = (if a = addr
                   then Some ((case map_of (h cov) addr of None \<Rightarrow> 0 | Some old \<Rightarrow> old) + cnt)
                   else map_of (h cov) a)"
    by (simp add: d'_def map_of_dict_set split: option.splits)
  have later: "map_of (drop (Suc i) (h src)) addr = None"
  proof -
    have "drop i (h src) = (addr, cnt) # drop (Suc i) (h src)"
      using lt item by (metis Cons_nth_drop_Suc)
    moreover have "distinct (map fst (drop i (h src)))"
      using Suc.prems by (simp add: distinct_drop drop_map [symmetric])
    ultimately have "addr \<notin> fst ` set (drop (Suc i) (h src))" by simp
    then show ?thesis by (simp add: map_of_eq_None_iff)
  qed
  have IH: "merge_items src cov (Suc i) h' src = h' src
         \<and> map_of (merge_items src cov (Suc i) h' cov) a =
             (case map_of (drop (Suc i) (h' src)) a of
                None \<Rightarrow> map_of (h' cov) a
              | Some c \<Rightarrow> Some ((case map_of (h' cov) a of None \<Rightarrow> 0 | Some old \<Rightarrow> old) + c))"
  proof (rule Suc.hyps(1))
    show "n = length (h' src) - Suc i" using Suc.hyps(2) by (simp add: src')
    show "distinct (map fst (h' src))" using Suc.prems by (simp add: src')
  qed
  have here: "map_of (drop i (h src)) a =
           (if a = addr then Some cnt else map_of (drop (Suc i) (h src)) a)"
    using map_of_drop_nth [OF Suc.prems lt, of a] by (simp add: item)
  show ?case
  proof (cases "a = addr")
    case True
    then show ?thesis
      using IH later d'_at here True by (simp add: step src' cov' del: merge_items.simps)
  next
    case False
    then have same: "map_of (h' cov) a = map_of (h cov) a"
      by (simp add: cov' d'_at)
    have here': "map_of (drop i (h src)) a = map_of (drop (Suc i) (h src)) a"
      using False here by simp
    show ?thesis
      using IH unfolding step src' same here' by (simp del: merge_items.simps)
  qed
qed


lemma merge_coverage_present:
  assumes "map_of coverage m = Some cov" and "cov \<noteq> r" and "distinct (map fst (objs s r))"
  shows "\<exists>s'. merge_coverage coverage m r s = Inr (coverage, s')
              \<and> objs s' r = objs s r
              \<and> map_of (objs s' cov) a =
                  (case map_of (objs s r) a of
                     None \<Rightarrow> map_of (objs s cov) a
                   | Some c \<Rightarrow> Some ((case map_of (objs s cov) a of None \<Rightarrow> 0 | Some old \<Rightarrow> old) + c))"
proof -
  have "r \<noteq> cov" using assms(2) by simp
  from merge_items_other [of r cov "objs s" 0 a, OF this assms(3)]
  show ?thesis using assms(1) by (simp add: merge_coverage_def del: merge_items.simps)
qed

end
